theory Spec2Isabelle
  imports Main "HOL-Library.Multiset"
begin

section \<open>Data model\<close>

text \<open>
  The program is one function, \<^verbatim>\<open>fetch_and_save_data\<close> of \<^verbatim>\<open>fetch_data.py\<close>.
  It keeps a JSON file holding a list of \<^verbatim>\<open>[timestamp_seconds, price]\<close> entries and
  merges into it the \<^verbatim>\<open>[timestamp_ms, price]\<close> entries returned by the price API.

  A timestamp is a Python integer, hence an \<^typ>\<open>int\<close>. The code never inspects a
  price: it is read from the response with \<^verbatim>\<open>entry[1]\<close> and stored, so the price is a
  type parameter \<open>'p\<close>.
\<close>

type_synonym 'p price_point = "int \<times> 'p"

type_synonym 'p dataset = "'p price_point list"

type_synonym 'p raw_point = "int \<times> 'p"

text \<open>
  \<^verbatim>\<open>datetime.fromtimestamp(ts, tz=timezone.utc)\<close> raises (ValueError, OverflowError or
  OSError, depending on the size of the number) unless the instant lies in the years
  1 to 9999, that is between 0001-01-01T00:00:00Z and 9999-12-31T23:59:59Z. None of the
  three is caught by the handlers of lines 135 to 142.
\<close>

datatype error = TimestampOutOfRange

definition min_timestamp :: int where
  "min_timestamp = - 62135596800"

definition max_timestamp :: int where
  "max_timestamp = 253402300799"

definition fromtimestamp :: "int \<Rightarrow> error + int" where
  "fromtimestamp ts =
     (if min_timestamp \<le> ts \<and> ts \<le> max_timestamp then Inr ts else Inl TimestampOutOfRange)"

text \<open>
  \<^verbatim>\<open>datetime.fromtimestamp(ts, tz=timezone.utc).strftime('%Y-%m-%d')\<close>: the UTC calendar
  date of an instant. The date strings of the source are only ever compared for
  equality (lines 107 and 111), and two instants have the same UTC calendar date exactly
  when they fall into the same block of 86400 seconds counted from the epoch, so a date
  is represented by its day number, the floor of \<open>ts / 86400\<close>.
\<close>

definition utc_date :: "int \<Rightarrow> error + int" where
  "utc_date ts = (case fromtimestamp ts of Inl e \<Rightarrow> Inl e | Inr t \<Rightarrow> Inr (t div 86400))"

section \<open>Fetch planner (lines 59 to 68)\<close>

text \<open>
  \<open>now_us\<close> is \<^verbatim>\<open>datetime.now(timezone.utc)\<close> in microseconds since the epoch (a
  datetime has microsecond resolution). The \<^verbatim>\<open>.days\<close> of a timedelta is the floor of
  the difference in days, and \<open>div\<close> on \<^typ>\<open>int\<close> is floor division.
\<close>

definition days_to_fetch :: "int \<Rightarrow> int \<Rightarrow> error + int" where
  "days_to_fetch now_us last_timestamp_sec =
     (if last_timestamp_sec > 0 then
        (case fromtimestamp last_timestamp_sec of
           Inl e \<Rightarrow> Inl e
         | Inr t \<Rightarrow>
             (let d = (now_us - t * 1000000) div 86400000000 + 2
              in Inr (if d > 365 then 365 else d)))
      else Inr 365)"

section \<open>Merge engine (lines 85 to 117)\<close>

text \<open>Lines 88 to 93: the set of the dates already stored.\<close>

fun existing_dates_loop :: "'p dataset \<Rightarrow> int set \<Rightarrow> error + int set" where
  "existing_dates_loop [] existing_dates = Inr existing_dates"
| "existing_dates_loop ((ts, price) # rest) existing_dates =
     (case utc_date ts of
        Inl e \<Rightarrow> Inl e
      | Inr date \<Rightarrow> existing_dates_loop rest (insert date existing_dates))"

text \<open>
  Lines 98 to 117: the loop over the raw points. The state is
  \<open>(existing_data, existing_dates, new_entries_count)\<close>. Python's \<^verbatim>\<open>//\<close> is floor
  division. The date of the point is computed (line 104) before either filter, so a
  timestamp out of range raises even for a point that would have been skipped.
\<close>

fun merge_loop ::
  "int \<Rightarrow> 'p raw_point list \<Rightarrow> 'p dataset \<times> int set \<times> nat \<Rightarrow> error + ('p dataset \<times> int set \<times> nat)"
where
  "merge_loop today [] st = Inr st"
| "merge_loop today ((timestamp_ms, price) # rest) (existing_data, existing_dates, new_entries_count) =
     (let timestamp_sec = timestamp_ms div 1000 in
      case utc_date timestamp_sec of
        Inl e \<Rightarrow> Inl e
      | Inr entry_date \<Rightarrow>
          if entry_date = today then
            merge_loop today rest (existing_data, existing_dates, new_entries_count)
          else if entry_date \<in> existing_dates then
            merge_loop today rest (existing_data, existing_dates, new_entries_count)
          else
            merge_loop today rest
              (existing_data @ [(timestamp_sec, price)],
               insert entry_date existing_dates,
               new_entries_count + 1))"

text \<open>
  Lines 85 to 117 together: the candidate dataset and the number of new entries.
  \<open>today\<close> is the day number of \<^verbatim>\<open>datetime.now(timezone.utc)\<close> at line 96.
\<close>

definition merge_engine :: "int \<Rightarrow> 'p dataset \<Rightarrow> 'p raw_point list \<Rightarrow> error + ('p dataset \<times> nat)" where
  "merge_engine today existing_data new_data_raw =
     (case existing_dates_loop existing_data {} of
        Inl e \<Rightarrow> Inl e
      | Inr existing_dates \<Rightarrow>
          (case merge_loop today new_data_raw (existing_data, existing_dates, 0) of
             Inl e \<Rightarrow> Inl e
           | Inr (data, dates, new_entries_count) \<Rightarrow> Inr (data, new_entries_count)))"

definition today_utc :: "int \<Rightarrow> int" where
  "today_utc now_us = now_us div 86400000000"

section \<open>Integrity check and write (lines 119 to 133)\<close>

text \<open>
  \<^verbatim>\<open>list.sort(key=lambda x: x[0])\<close> is a stable sort on the timestamp, as is
  \<^const>\<open>sort_key\<close> with \<^const>\<open>fst\<close>.
\<close>

datatype 'p save_result = NoChanges | IntegrityAbort | Written "'p dataset"

definition save_step :: "nat \<Rightarrow> 'p dataset \<times> nat \<Rightarrow> 'p save_result" where
  "save_step initial_count res =
     (case res of (existing_data, new_entries_count) \<Rightarrow>
        if new_entries_count > 0 then
          (if length existing_data < initial_count then IntegrityAbort
           else Written (sort_key fst existing_data))
        else NoChanges)"

text \<open>
  Lines 56 and 85 to 133 on a loaded dataset and a fetched list of raw points:
  \<open>initial_count\<close> is taken before the merge.
\<close>

definition merge_and_save :: "int \<Rightarrow> 'p dataset \<Rightarrow> 'p raw_point list \<Rightarrow> error + 'p save_result" where
  "merge_and_save today existing_data new_data_raw =
     (let initial_count = length existing_data in
      case merge_engine today existing_data new_data_raw of
        Inl e \<Rightarrow> Inl e
      | Inr res \<Rightarrow> Inr (save_step initial_count res))"

text \<open>The content of the store after a run that started from \<open>D\<close>.\<close>

definition stored_after :: "'p dataset \<Rightarrow> 'p save_result \<Rightarrow> 'p dataset" where
  "stored_after D r = (case r of Written data \<Rightarrow> data | _ \<Rightarrow> D)"

section \<open>Store loader and everything before the request (lines 14 to 72)\<close>

text \<open>
  The value \<^verbatim>\<open>json.loads\<close> returns is dynamically typed, and the loader uses it
  without checking its shape, so this part is modelled on JSON values. Numbers are
  integers here: a document with a floating-point number is outside this model.
  An object is its list of members.
\<close>

datatype json =
    JNull
  | JBool bool
  | JInt int
  | JStr string
  | JArr "json list"
  | JObj "(string \<times> json) list"

text \<open>
  The text of the file is a Python \<^verbatim>\<open>str\<close>, a sequence of Unicode code points.
  \<^verbatim>\<open>content.strip()\<close> (line 33) removes the leading and trailing characters for which
  \<^verbatim>\<open>str.isspace\<close> holds, so it is empty exactly when every character of the text is
  such a character.
\<close>

type_synonym py_str = "nat list"

definition py_isspace :: "nat \<Rightarrow> bool" where
  "py_isspace c =
     ((9 \<le> c \<and> c \<le> 13) \<or> (28 \<le> c \<and> c \<le> 32) \<or> c = 133 \<or> c = 160 \<or> c = 5760
      \<or> (8192 \<le> c \<and> c \<le> 8202) \<or> c = 8232 \<or> c = 8233 \<or> c = 8239 \<or> c = 8287
      \<or> c = 12288)"

definition blank :: "py_str \<Rightarrow> bool" where
  "blank content = list_all py_isspace content"

text \<open>The code points of an ASCII literal.\<close>

definition ascii :: "string \<Rightarrow> py_str" where
  "ascii s = map of_char s"

text \<open>
  \<^verbatim>\<open>json.loads\<close> is library code. What it does on the text of the file is part of the
  input: it raises JSONDecodeError, it raises another exception (ValueError on an
  integer literal beyond the digit limit, RecursionError on deep nesting), or it returns
  a value.
\<close>

datatype loads_result = JSONDecodeError | OtherException | Parsed json

text \<open>
  What lines 29 to 37 find at \<^verbatim>\<open>price_data.json\<close>: no file; a file that cannot be
  opened, read or decoded; a file with the text \<open>content\<close>, on which \<^verbatim>\<open>json.loads\<close>
  would do \<open>r\<close>. The loader calls \<^verbatim>\<open>json.loads\<close> only when the text is not blank.
\<close>

datatype store_file = NoFile | Unreadable | Text py_str loads_result

text \<open>
  The ways in which the function ends before the request of line 75 is sent:
  the \<^verbatim>\<open>return\<close> of line 17, of line 48 and of line 51, and an exception that no
  handler catches (lines 56 to 72 are outside every \<^verbatim>\<open>try\<close>).
\<close>

datatype abort = MissingCredential | CorruptStore | ReadFailure | Uncaught

datatype py_exception = TypeError | IndexError | KeyError

text \<open>Python's truth value of a parsed document (line 39).\<close>

fun truthy :: "json \<Rightarrow> bool" where
  "truthy JNull = False"
| "truthy (JBool b) = b"
| "truthy (JInt n) = (n \<noteq> 0)"
| "truthy (JStr s) = (s \<noteq> [])"
| "truthy (JArr xs) = (xs \<noteq> [])"
| "truthy (JObj kvs) = (kvs \<noteq> [])"

text \<open>
  \<^verbatim>\<open>v[-1]\<close> and \<^verbatim>\<open>v[0]\<close> (line 40). The keys of a parsed object are strings, so an
  integer subscript of a dict raises KeyError.
\<close>

fun subscript_last :: "json \<Rightarrow> py_exception + json" where
  "subscript_last (JArr xs) = (if xs = [] then Inl IndexError else Inr (last xs))"
| "subscript_last (JStr s) = (if s = [] then Inl IndexError else Inr (JStr [last s]))"
| "subscript_last (JObj kvs) = Inl KeyError"
| "subscript_last v = Inl TypeError"

fun subscript_first :: "json \<Rightarrow> py_exception + json" where
  "subscript_first (JArr xs) = (case xs of [] \<Rightarrow> Inl IndexError | x # _ \<Rightarrow> Inr x)"
| "subscript_first (JStr s) = (case s of [] \<Rightarrow> Inl IndexError | c # _ \<Rightarrow> Inr (JStr [c]))"
| "subscript_first (JObj kvs) = Inl KeyError"
| "subscript_first v = Inl TypeError"

text \<open>
  The argument of \<^verbatim>\<open>datetime.fromtimestamp\<close> (line 41) must be a number; a Python
  bool is an integer.
\<close>

fun as_number :: "json \<Rightarrow> py_exception + int" where
  "as_number (JInt n) = Inr n"
| "as_number (JBool b) = Inr (if b then 1 else 0)"
| "as_number v = Inl TypeError"

text \<open>\<^verbatim>\<open>len(v)\<close> (line 56); a dict has one item per distinct key.\<close>

fun py_len :: "json \<Rightarrow> py_exception + nat" where
  "py_len (JArr xs) = Inr (length xs)"
| "py_len (JStr s) = Inr (length s)"
| "py_len (JObj kvs) = Inr (length (remdups (map fst kvs)))"
| "py_len v = Inl TypeError"

text \<open>
  Lines 24 to 53. JSONDecodeError is handled at line 45, every other exception raised
  inside the \<^verbatim>\<open>try\<close> at line 49; both handlers return. The result is
  \<open>(existing_data, last_timestamp_sec)\<close>.
\<close>

definition load_store :: "store_file \<Rightarrow> abort + (json \<times> int)" where
  "load_store f =
     (case f of
        NoFile \<Rightarrow> Inr (JArr [], 0)
      | Unreadable \<Rightarrow> Inl ReadFailure
      | Text content r \<Rightarrow>
          if blank content then Inr (JArr [], 0)
          else
            (case r of
               JSONDecodeError \<Rightarrow> Inl CorruptStore
             | OtherException \<Rightarrow> Inl ReadFailure
             | Parsed v \<Rightarrow>
                 if truthy v then
                   (case subscript_last v of
                      Inl x \<Rightarrow> Inl ReadFailure
                    | Inr entry \<Rightarrow>
                        (case subscript_first entry of
                           Inl x \<Rightarrow> Inl ReadFailure
                         | Inr ts \<Rightarrow>
                             (case as_number ts of
                                Inl x \<Rightarrow> Inl ReadFailure
                              | Inr last_timestamp_sec \<Rightarrow>
                                  (case fromtimestamp last_timestamp_sec of
                                     Inl e \<Rightarrow> Inl ReadFailure
                                   | Inr t \<Rightarrow> Inr (v, last_timestamp_sec)))))
                 else Inr (v, 0)))"

text \<open>What the function holds when it sends the request of line 75.\<close>

record request =
  req_existing_data :: json
  req_initial_count :: nat
  req_days_to_fetch :: int

text \<open>
  Lines 14 to 72. \<open>api_key\<close> is the result of \<^verbatim>\<open>os.getenv\<close>, \<open>now_us\<close> the clock
  read at line 61. A result \<open>Inl a\<close> means that the function has ended before line 75:
  no request is sent and, the only write being at line 130, nothing is written.
  A result \<open>Inr r\<close> means that the request for \<open>req_days_to_fetch r\<close> days is sent.
\<close>

definition prepare :: "string option \<Rightarrow> store_file \<Rightarrow> int \<Rightarrow> abort + request" where
  "prepare api_key f now_us =
     (if api_key = None \<or> api_key = Some [] then Inl MissingCredential
      else
        (case load_store f of
           Inl a \<Rightarrow> Inl a
         | Inr (v, last_timestamp_sec) \<Rightarrow>
             (case py_len v of
                Inl x \<Rightarrow> Inl Uncaught
              | Inr n \<Rightarrow>
                  (case days_to_fetch now_us last_timestamp_sec of
                     Inl e \<Rightarrow> Inl Uncaught
                   | Inr d \<Rightarrow>
                       Inr \<lparr>req_existing_data = v, req_initial_count = n,
                            req_days_to_fetch = d\<rparr>))))"

text \<open>
  The shape the spec's data model gives a stored dataset, in the spec's words: a
  sequence of pairs of an integer timestamp and a price (a number, which in this model
  is an integer). A document is structurally invalid when it does not have this shape.
\<close>

definition spec_price_point :: "json \<Rightarrow> bool" where
  "spec_price_point e = (case e of JArr [JInt ts, JInt price] \<Rightarrow> True | _ \<Rightarrow> False)"

definition spec_sequence_of_pairs :: "json \<Rightarrow> bool" where
  "spec_sequence_of_pairs v = (case v of JArr es \<Rightarrow> list_all spec_price_point es | _ \<Rightarrow> False)"

section \<open>Auxiliary notions for the proofs\<close>

text \<open>
  The theorems for the claims are stated on the definitions above. The proofs go
  through a closed form of the merge loop: the list of the entries it appends.
\<close>

definition in_range :: "int \<Rightarrow> bool" where
  "in_range ts = (min_timestamp \<le> ts \<and> ts \<le> max_timestamp)"

definition day_of :: "'p price_point \<Rightarrow> int" where
  "day_of e = fst e div 86400"

definition raw_sec :: "'p raw_point \<Rightarrow> 'p price_point" where
  "raw_sec r = (fst r div 1000, snd r)"

fun accepted :: "int \<Rightarrow> int set \<Rightarrow> 'p raw_point list \<Rightarrow> 'p dataset" where
  "accepted today seen [] = []"
| "accepted today seen (r # rest) =
     (if day_of (raw_sec r) = today \<or> day_of (raw_sec r) \<in> seen then accepted today seen rest
      else raw_sec r # accepted today (insert (day_of (raw_sec r)) seen) rest)"

section \<open>The merge loop in closed form\<close>

lemma utc_date_Inr: "utc_date ts = Inr d \<longleftrightarrow> in_range ts \<and> d = ts div 86400"
  by (auto simp: utc_date_def fromtimestamp_def in_range_def)

lemma utc_date_Inl: "utc_date ts = Inl e \<longleftrightarrow> \<not> in_range ts"
  by (cases e) (auto simp: utc_date_def fromtimestamp_def in_range_def)

lemma utc_date_cases:
  obtains (ok) "in_range ts" "utc_date ts = Inr (ts div 86400)"
        | (bad) "\<not> in_range ts" "utc_date ts = Inl TimestampOutOfRange"
  by (cases "in_range ts") (simp_all add: utc_date_def fromtimestamp_def in_range_def)

lemma existing_dates_loop_Inr:
  "existing_dates_loop D S = Inr S' \<longleftrightarrow> (\<forall>e\<in>set D. in_range (fst e)) \<and> S' = S \<union> day_of ` set D"
proof (induction D arbitrary: S)
  case Nil
  then show ?case by auto
next
  case (Cons e D)
  obtain ts p where e: "e = (ts, p)" by (cases e)
  show ?case
  proof (cases ts rule: utc_date_cases)
    case ok
    then show ?thesis using Cons.IH [of "insert (ts div 86400) S"] by (auto simp: e day_of_def)
  next
    case bad
    then show ?thesis by (auto simp: e)
  qed
qed

lemma merge_loop_Inr:
  "merge_loop today R (data, seen, n) = Inr res \<longleftrightarrow>
     (\<forall>r\<in>set R. in_range (fst r div 1000)) \<and>
     res = (data @ accepted today seen R, seen \<union> day_of ` set (accepted today seen R),
            n + length (accepted today seen R))"
proof (induction R arbitrary: data seen n)
  case Nil
  then show ?case by auto
next
  case (Cons r R)
  obtain ms p where r: "r = (ms, p)" by (cases r)
  show ?case
  proof (cases "ms div 1000" rule: utc_date_cases)
    case ok
    then show ?thesis
      using Cons.IH by (auto simp: r raw_sec_def day_of_def Let_def)
  next
    case bad
    then show ?thesis by (auto simp: r)
  qed
qed

lemma merge_engine_Inr:
  "merge_engine today D R = Inr res \<longleftrightarrow>
     (\<forall>e\<in>set D. in_range (fst e)) \<and> (\<forall>r\<in>set R. in_range (fst r div 1000)) \<and>
     res = (D @ accepted today (day_of ` set D) R, length (accepted today (day_of ` set D) R))"
proof (cases "existing_dates_loop D ({}::int set)")
  case (Inl e)
  then have "\<not> (\<forall>e\<in>set D. in_range (fst e))"
    using existing_dates_loop_Inr [of D "{}" "day_of ` set D"] by auto
  with Inl show ?thesis by (simp add: merge_engine_def)
next
  case (Inr S)
  then have S: "(\<forall>e\<in>set D. in_range (fst e))" "S = day_of ` set D"
    by (auto simp: existing_dates_loop_Inr)
  show ?thesis
  proof (cases "merge_loop today R (D, S, 0)")
    case (Inl e)
    then have "\<not> (\<forall>r\<in>set R. in_range (fst r div 1000))"
      using merge_loop_Inr [of today R D S 0] by auto
    with Inl Inr show ?thesis by (simp add: merge_engine_def)
  next
    case st: (Inr st)
    let ?A = "accepted today (day_of ` set D) R"
    from st have R: "\<forall>r\<in>set R. in_range (fst r div 1000)"
      and st_eq: "st = (D @ ?A, day_of ` set D \<union> day_of ` set ?A, length ?A)"
      using merge_loop_Inr [of today R D S 0 st] S(2) by auto
    have "merge_loop today R (D, S, 0) = Inr (D @ ?A, day_of ` set D \<union> day_of ` set ?A, length ?A)"
      using st st_eq by simp
    with Inr have "merge_engine today D R = Inr (D @ ?A, length ?A)"
      by (simp add: merge_engine_def)
    with S(1) R show ?thesis by auto
  qed
qed


lemma accepted_props:
  "e \<in> set (accepted today seen R) \<Longrightarrow>
     day_of e \<noteq> today \<and> day_of e \<notin> seen \<and> e \<in> raw_sec ` set R"
  by (induction R arbitrary: seen) (auto split: if_splits)

lemma accepted_distinct: "distinct (map day_of (accepted today seen R))"
proof (induction R arbitrary: seen)
  case Nil
  then show ?case by simp
next
  case (Cons r R)
  have "day_of (raw_sec r) \<notin> day_of ` set (accepted today (insert (day_of (raw_sec r)) seen) R)"
  proof
    assume "day_of (raw_sec r) \<in> day_of ` set (accepted today (insert (day_of (raw_sec r)) seen) R)"
    then obtain e where e: "e \<in> set (accepted today (insert (day_of (raw_sec r)) seen) R)"
      and d: "day_of e = day_of (raw_sec r)" by auto
    from accepted_props [OF e] d show False by simp
  qed
  with Cons.IH show ?case by simp
qed

lemma accepted_append:
  "accepted today seen (R1 @ R2) =
     accepted today seen R1 @ accepted today (seen \<union> day_of ` set (accepted today seen R1)) R2"
proof (induction R1 arbitrary: seen)
  case Nil
  then show ?case by simp
next
  case (Cons r R1)
  show ?case
  proof (cases "day_of (raw_sec r) = today \<or> day_of (raw_sec r) \<in> seen")
    case True
    then show ?thesis using Cons.IH [of seen] by simp
  next
    case False
    let ?s = "insert (day_of (raw_sec r)) seen"
    have eq: "?s \<union> day_of ` set (accepted today ?s R1) =
          seen \<union> day_of ` set (raw_sec r # accepted today ?s R1)"
      by auto
    from False show ?thesis using Cons.IH [of ?s] by (simp only: accepted.simps append_Cons if_False eq)
  qed
qed

lemma accepted_covers:
  "r \<in> set R \<Longrightarrow>
     day_of (raw_sec r) = today \<or> day_of (raw_sec r) \<in> seen \<union> day_of ` set (accepted today seen R)"
proof (induction R arbitrary: seen)
  case Nil
  then show ?case by simp
next
  case (Cons a R)
  show ?case
  proof (cases "r = a")
    case True
    then show ?thesis by auto
  next
    case False
    with Cons.prems have "r \<in> set R" by simp
    from Cons.IH [OF this, of seen] Cons.IH [OF this, of "insert (day_of (raw_sec a)) seen"]
    show ?thesis by auto
  qed
qed

lemma accepted_none:
  "(\<And>r. r \<in> set R \<Longrightarrow> day_of (raw_sec r) = today \<or> day_of (raw_sec r) \<in> seen) \<Longrightarrow>
     accepted today seen R = []"
  by (induction R) auto

lemma accepted_skip:
  assumes "day_of (raw_sec r) \<in> seen"
  shows "accepted today seen (R1 @ r # R2) = accepted today seen (R1 @ R2)"
  using assms by (simp add: accepted_append)

lemma accepted_filter:
  "distinct (map (\<lambda>r. day_of (raw_sec r)) (filter (\<lambda>r. day_of (raw_sec r) \<noteq> today \<and> day_of (raw_sec r) \<notin> seen) R)) \<Longrightarrow>
   accepted today seen R = map raw_sec (filter (\<lambda>r. day_of (raw_sec r) \<noteq> today \<and> day_of (raw_sec r) \<notin> seen) R)"
proof (induction R arbitrary: seen)
  case Nil
  then show ?case by simp
next
  case (Cons a R)
  let ?keep = "\<lambda>s r. day_of (raw_sec r) \<noteq> today \<and> day_of (raw_sec r) \<notin> s"
  show ?case
  proof (cases "?keep seen a")
    case False
    with Cons show ?thesis by auto
  next
    case True
    let ?s = "insert (day_of (raw_sec a)) seen"
    from True Cons.prems
    have notin: "day_of (raw_sec a) \<notin> (\<lambda>r. day_of (raw_sec r)) ` set (filter (?keep seen) R)"
      and dist: "distinct (map (\<lambda>r. day_of (raw_sec r)) (filter (?keep seen) R))"
      by auto
    have feq: "filter (?keep ?s) R = filter (?keep seen) R"
    proof (rule filter_cong [OF refl])
      fix x assume xR: "x \<in> set R"
      have "day_of (raw_sec x) \<noteq> day_of (raw_sec a)" if k: "?keep seen x"
      proof
        assume eq: "day_of (raw_sec x) = day_of (raw_sec a)"
        from k xR have "x \<in> set (filter (?keep seen) R)" by simp
        then have "day_of (raw_sec x) \<in> (\<lambda>r. day_of (raw_sec r)) ` set (filter (?keep seen) R)"
          by (rule imageI)
        with eq notin show False by simp
      qed
      then show "?keep ?s x = ?keep seen x" by blast
    qed
    have d2: "distinct (map (\<lambda>r. day_of (raw_sec r)) (filter (?keep ?s) R))"
      using dist by (simp only: feq)
    have acc: "accepted today ?s R = map raw_sec (filter (?keep seen) R)"
      using Cons.IH [OF d2] by (simp only: feq)
    from True acc show ?thesis by simp
  qed
qed

lemma merge_engine_total:
  assumes "\<forall>e\<in>set D. in_range (fst e)" "\<forall>r\<in>set R. in_range (fst r div 1000)"
  shows "\<exists>cand n. merge_engine today D R = Inr (cand, n)"
  using assms merge_engine_Inr [of today D R] by blast

lemma error_eq: "(e :: error) = e'"
  by (cases e, cases e') simp

lemma merge_engine_Inl:
  "merge_engine today D R = Inl e \<longleftrightarrow>
     \<not> ((\<forall>e\<in>set D. in_range (fst e)) \<and> (\<forall>r\<in>set R. in_range (fst r div 1000)))"
proof (cases "merge_engine today D R")
  case (Inl e')
  then have "\<not> ((\<forall>e\<in>set D. in_range (fst e)) \<and> (\<forall>r\<in>set R. in_range (fst r div 1000)))"
    using merge_engine_total [of D R today] by auto
  with Inl show ?thesis by (simp add: error_eq [of e e'])
next
  case (Inr res)
  then show ?thesis using merge_engine_Inr [of today D R res] by simp
qed

lemma utc_date_in_range: "in_range ts \<Longrightarrow> utc_date ts = Inr (ts div 86400)"
  by (simp add: utc_date_Inr)

lemma utc_date_entry: "in_range (fst e) \<Longrightarrow> utc_date (fst e) = Inr (day_of e)"
  by (simp add: utc_date_Inr day_of_def)

lemma utc_date_raw: "in_range (fst r div 1000) \<Longrightarrow> utc_date (fst r div 1000) = Inr (day_of (raw_sec r))"
  by (simp add: utc_date_Inr day_of_def raw_sec_def)

lemma accepted_in_range:
  "\<forall>r\<in>set R. in_range (fst r div 1000) \<Longrightarrow> e \<in> set (accepted today seen R) \<Longrightarrow> in_range (fst e)"
  using accepted_props [of e today seen R] by (auto simp: raw_sec_def)

text \<open>
  What a successful merge yields, in one statement.
\<close>

lemma merge_engine_result:
  assumes "merge_engine today D R = Inr (cand, n)"
  obtains A where "cand = D @ A" "n = length A" "A = accepted today (day_of ` set D) R"
    "\<forall>e\<in>set D. in_range (fst e)" "\<forall>r\<in>set R. in_range (fst r div 1000)"
    "\<forall>e\<in>set A. in_range (fst e)"
  using assms accepted_in_range [of R _ today "day_of ` set D"]
  by (auto simp: merge_engine_Inr)

lemma accepted_fresh:
  assumes "e \<in> set (accepted today (day_of ` set D) R)" "d \<in> set D"
  shows "day_of e \<noteq> day_of d"
proof
  assume eq: "day_of e = day_of d"
  from accepted_props [OF assms(1)] have "day_of e \<notin> day_of ` set D" by (rule conjunct2 [THEN conjunct1])
  moreover from assms(2) have "day_of d \<in> day_of ` set D" by (rule imageI)
  ultimately show False unfolding eq by (rule notE)
qed

lemma accepted_disjoint:
  "day_of ` set D \<inter> day_of ` set (accepted today (day_of ` set D) R) = {}"
proof (rule ccontr)
  assume "day_of ` set D \<inter> day_of ` set (accepted today (day_of ` set D) R) \<noteq> {}"
  then obtain x where "x \<in> day_of ` set D" "x \<in> day_of ` set (accepted today (day_of ` set D) R)"
    by (meson Int_emptyI)
  then obtain d e where "d \<in> set D" "x = day_of d" "e \<in> set (accepted today (day_of ` set D) R)" "x = day_of e"
    by (meson imageE)
  with accepted_fresh [of e today D R d] show False by simp
qed

lemma distinct_dates_iff:
  assumes "\<forall>e\<in>set xs. in_range (fst e)"
  shows "distinct (map (\<lambda>e. utc_date (fst e)) xs) \<longleftrightarrow> distinct (map day_of xs)"
proof -
  have "map (\<lambda>e. utc_date (fst e)) xs = map (\<lambda>e. Inr (day_of e)) xs"
    using assms by (intro map_cong refl) (simp add: utc_date_entry)
  also have "\<dots> = map Inr (map day_of xs)" by simp
  finally show ?thesis by (simp add: distinct_map del: map_map)
qed

lemma remerge_adds_nothing:
  assumes D: "\<forall>e\<in>set D. in_range (fst e)" and R: "\<forall>r\<in>set R. in_range (fst r div 1000)"
    and D2: "\<forall>e\<in>set D2. in_range (fst e)"
    and days: "day_of ` set D \<union> day_of ` set (accepted today (day_of ` set D) R) \<subseteq> day_of ` set D2"
  shows "merge_engine today D2 R = Inr (D2, 0)"
proof -
  have "accepted today (day_of ` set D2) R = []"
  proof (rule accepted_none)
    fix r assume "r \<in> set R"
    from accepted_covers [OF this, of today "day_of ` set D"] days
    show "day_of (raw_sec r) = today \<or> day_of (raw_sec r) \<in> day_of ` set D2" by blast
  qed
  with D2 R show ?thesis using merge_engine_Inr [of today D2 R "(D2, 0)"] by simp
qed

section \<open>Stable sorting of a dataset extended by a permuted list\<close>

lemma filter_key_le_one:
  "distinct (map f xs) \<Longrightarrow> length (filter (\<lambda>x. f x = c) xs) \<le> 1"
  by (induction xs) (auto simp: filter_empty_conv image_iff)

lemma mset_eq_short:
  assumes "mset xs = mset ys" "length xs \<le> 1"
  shows "xs = ys"
proof (cases xs)
  case Nil
  with assms show ?thesis by simp
next
  case (Cons x xs')
  with assms(2) have xs: "xs = [x]" by simp
  with assms(1) have "mset ys = {#x#}" by simp
  then have "ys = [x]" by (cases ys) (auto simp: add_mset_eq_single)
  with xs show ?thesis by simp
qed

lemma distinct_map_fst_from_day:
  fixes A :: "'p dataset"
  assumes "distinct (map day_of A)"
  shows "distinct (map fst A)"
proof -
  have "map day_of A = map (\<lambda>t. t div 86400) (map fst A)"
    by (simp add: day_of_def)
  with assms show ?thesis by (metis distinct_map)
qed

lemma sort_append_perm:
  fixes D A A' :: "'p dataset"
  assumes m: "mset A' = mset A" and d: "distinct (map fst A)"
  shows "sort_key fst (D @ A') = sort_key fst (D @ A)"
proof (rule properties_for_sort_key)
  show "mset (sort_key fst (D @ A)) = mset (D @ A')" using m by simp
  show "sorted (map fst (sort_key fst (D @ A)))" by simp
  fix k assume "k \<in> set (sort_key fst (D @ A))"
  have fA: "filter (\<lambda>x. fst x = c) A' = filter (\<lambda>x. fst x = c) A" for c
  proof (rule sym, rule mset_eq_short)
    show "mset (filter (\<lambda>x. fst x = c) A) = mset (filter (\<lambda>x. fst x = c) A')"
      using m by simp
    show "length (filter (\<lambda>x. fst x = c) A) \<le> 1"
      using d by (rule filter_key_le_one)
  qed
  have "filter (\<lambda>x. fst k = fst x) (sort_key fst (D @ A)) = filter (\<lambda>x. fst x = fst k) (sort_key fst (D @ A))"
    by (rule filter_cong) auto
  also have "\<dots> = filter (\<lambda>x. fst x = fst k) (D @ A)" by (rule sort_key_stable)
  also have "\<dots> = filter (\<lambda>x. fst x = fst k) (D @ A')" by (simp add: fA)
  also have "\<dots> = filter (\<lambda>x. fst k = fst x) (D @ A')" by (rule filter_cong) auto
  finally show "filter (\<lambda>x. fst k = fst x) (sort_key fst (D @ A)) = filter (\<lambda>x. fst k = fst x) (D @ A')" .
qed

text \<open>
  The definitions unfolded when the model is evaluated on a concrete input.
\<close>

lemmas eval_defs = merge_and_save_def save_step_def merge_engine_def utc_date_def fromtimestamp_def
  min_timestamp_def max_timestamp_def stored_after_def

section \<open>Non-shrinkage\<close>

text \<open>
  Claim C1. For every existing dataset \<open>D\<close> and every list of raw points \<open>R\<close>, the
  candidate dataset the merge produces is never shorter than \<open>D\<close>: the loop only
  appends, each appended entry is counted, the integrity check of line 122 never finds
  a length below the initial count, and the store after the run is not shorter than
  before.
\<close>

theorem C1_merge_never_shrinks:
  assumes "merge_engine today D R = Inr (cand, n)"
  shows "length D \<le> length cand
       \<and> length cand = length D + n
       \<and> save_step (length D) (cand, n) \<noteq> IntegrityAbort
       \<and> merge_and_save today D R = Inr (save_step (length D) (cand, n))
       \<and> length D \<le> length (stored_after D (save_step (length D) (cand, n)))"
proof -
  from assms have cand: "cand = D @ accepted today (day_of ` set D) R"
    and n: "n = length (accepted today (day_of ` set D) R)"
    by (simp_all add: merge_engine_Inr)
  from cand have len: "length D \<le> length cand" by simp
  from cand n have cnt: "length cand = length D + n" by simp
  from len have chk: "save_step (length D) (cand, n) \<noteq> IntegrityAbort"
    by (simp add: save_step_def)
  have run: "merge_and_save today D R = Inr (save_step (length D) (cand, n))"
    using assms by (simp add: merge_and_save_def)
  have st: "length D \<le> length (stored_after D (save_step (length D) (cand, n)))"
    using len by (simp add: stored_after_def save_step_def)
  from len cnt chk run st show ?thesis by blast
qed

theorem C1_merge_never_shrinks_witness:
  "merge_engine 30000 [(1700000000, ''9.5'')] [(1700086400000, ''9.7'')]
     = Inr ([(1700000000, ''9.5''), (1700086400, ''9.7'')], 1)
   \<and> length [(1700000000 :: int, ''9.5'')]
       \<le> length [(1700000000 :: int, ''9.5''), (1700086400, ''9.7'')]
   \<and> merge_and_save 30000 [(1700000000, ''9.5'')] [(1700086400000, ''9.7'')]
       = Inr (Written [(1700000000, ''9.5''), (1700086400, ''9.7'')])"
proof -
  have m: "merge_engine 30000 [(1700000000, ''9.5'')] [(1700086400000, ''9.7'')]
     = Inr ([(1700000000, ''9.5''), (1700086400, ''9.7'')], 1)"
    by (simp add: merge_engine_def utc_date_def fromtimestamp_def min_timestamp_def
        max_timestamp_def)
  from C1_merge_never_shrinks [OF m] m show ?thesis
    by (simp add: save_step_def)
qed

section \<open>Corrupt store\<close>

lemma load_store_CorruptStore_iff:
  "load_store f = Inl CorruptStore \<longleftrightarrow> (\<exists>content. f = Text content JSONDecodeError \<and> \<not> blank content)"
  by (cases f) (auto simp: load_store_def split: loads_result.splits sum.splits if_splits)

lemma load_store_other_exception:
  "\<not> blank content \<Longrightarrow> load_store (Text content OtherException) = Inl ReadFailure"
  by (simp add: load_store_def)

lemma days_to_fetch_loadable:
  assumes "fromtimestamp t = Inr t'"
  shows "\<exists>d. days_to_fetch now_us t = Inr d"
  using assms by (simp add: days_to_fetch_def Let_def)

lemma load_store_last_entry:
  assumes "\<not> blank content" and "fromtimestamp t = Inr t'"
  shows "load_store (Text content (Parsed (JArr (ys @ [JArr (JInt t # rest)]))))
       = Inr (JArr (ys @ [JArr (JInt t # rest)]), t)"
  using assms by (simp add: load_store_def)

text \<open>
  Claim C2, as amended. For every stored text that is not blank and on which
  \<^verbatim>\<open>json.loads\<close> raises JSONDecodeError, the loader fails with the corrupt-store
  condition, and the function ends before the request of line 75 whatever the
  credential and the clock are: nothing is fetched and nothing is written; when the
  credential is set, corrupt store is the condition the run ends with. No other file
  makes the loader report a corrupt store. A blank text is an empty store: the request
  for 365 days is sent. A text that \<^verbatim>\<open>json.loads\<close> parses is not checked for its
  shape: when it is a list whose last element is a list that starts with an integer
  timestamp in the range of \<^verbatim>\<open>datetime\<close>, the store is loaded and the request is sent,
  whatever the other elements are.
\<close>

theorem C2_invalid_json_aborts:
  "(\<not> blank content \<longrightarrow>
      load_store (Text content JSONDecodeError) = Inl CorruptStore
    \<and> (\<exists>a. prepare api_key (Text content JSONDecodeError) now_us = Inl a)
    \<and> (api_key \<noteq> None \<and> api_key \<noteq> Some [] \<longrightarrow>
         prepare api_key (Text content JSONDecodeError) now_us = Inl CorruptStore))
   \<and> (load_store f = Inl CorruptStore \<longrightarrow>
        (\<exists>c. f = Text c JSONDecodeError \<and> \<not> blank c))
   \<and> (blank content \<and> api_key \<noteq> None \<and> api_key \<noteq> Some [] \<longrightarrow>
        prepare api_key (Text content r) now_us
          = Inr \<lparr>req_existing_data = JArr [], req_initial_count = 0, req_days_to_fetch = 365\<rparr>)
   \<and> (\<not> blank content \<and> api_key \<noteq> None \<and> api_key \<noteq> Some [] \<and> fromtimestamp t = Inr t \<longrightarrow>
        (\<exists>d. days_to_fetch now_us t = Inr d
           \<and> prepare api_key (Text content (Parsed (JArr (ys @ [JArr (JInt t # rest)])))) now_us
               = Inr \<lparr>req_existing_data = JArr (ys @ [JArr (JInt t # rest)]),
                      req_initial_count = length ys + 1, req_days_to_fetch = d\<rparr>))"
proof -
  have corrupt: "load_store (Text content JSONDecodeError) = Inl CorruptStore" if "\<not> blank content"
    using that load_store_CorruptStore_iff [of "Text content JSONDecodeError"] by simp
  have stop: "\<exists>a. prepare api_key (Text content JSONDecodeError) now_us = Inl a" if "\<not> blank content"
    using corrupt [OF that] by (simp add: prepare_def)
  have stop_key: "prepare api_key (Text content JSONDecodeError) now_us = Inl CorruptStore"
    if "\<not> blank content" "api_key \<noteq> None \<and> api_key \<noteq> Some []"
    using corrupt [OF that(1)] that(2) by (simp add: prepare_def)
  have only_c: "\<exists>c. f = Text c JSONDecodeError \<and> \<not> blank c" if "load_store f = Inl CorruptStore"
    using that by (simp add: load_store_CorruptStore_iff)
  have empty_c: "prepare api_key (Text content r) now_us
      = Inr \<lparr>req_existing_data = JArr [], req_initial_count = 0, req_days_to_fetch = 365\<rparr>"
    if "blank content" "api_key \<noteq> None \<and> api_key \<noteq> Some []"
    using that by (simp add: prepare_def load_store_def days_to_fetch_def)
  have no_shape: "\<exists>d. days_to_fetch now_us t = Inr d
      \<and> prepare api_key (Text content (Parsed (JArr (ys @ [JArr (JInt t # rest)])))) now_us
          = Inr \<lparr>req_existing_data = JArr (ys @ [JArr (JInt t # rest)]),
                 req_initial_count = length ys + 1, req_days_to_fetch = d\<rparr>"
    if nb: "\<not> blank content" and key: "api_key \<noteq> None \<and> api_key \<noteq> Some []"
      and t: "fromtimestamp t = Inr t"
  proof -
    from days_to_fetch_loadable [OF t] obtain d where d: "days_to_fetch now_us t = Inr d" ..
    have "prepare api_key (Text content (Parsed (JArr (ys @ [JArr (JInt t # rest)])))) now_us
          = Inr \<lparr>req_existing_data = JArr (ys @ [JArr (JInt t # rest)]),
                 req_initial_count = length ys + 1, req_days_to_fetch = d\<rparr>"
      using key d by (simp add: prepare_def load_store_last_entry [OF nb t])
    with d show ?thesis by blast
  qed
  from corrupt stop stop_key only_c empty_c no_shape show ?thesis by blast
qed

theorem C2_invalid_json_aborts_witness:
  "\<not> blank (ascii ''{not json'')
   \<and> Some ''key'' \<noteq> None \<and> Some ''key'' \<noteq> Some []
   \<and> load_store (Text (ascii ''{not json'') JSONDecodeError) = Inl CorruptStore
   \<and> prepare (Some ''key'') (Text (ascii ''{not json'') JSONDecodeError) 1700100000000000
       = Inl CorruptStore
   \<and> blank [32, 10, 160]
   \<and> prepare (Some ''key'') (Text [32, 10, 160] JSONDecodeError) 1700100000000000
       = Inr \<lparr>req_existing_data = JArr [], req_initial_count = 0, req_days_to_fetch = 365\<rparr>
   \<and> fromtimestamp 1700000000 = Inr 1700000000
   \<and> prepare (Some ''key'')
        (Text (ascii ''[[1699913600], [1700000000, 9]]'')
           (Parsed (JArr ([JArr [JInt 1699913600]] @ [JArr (JInt 1700000000 # [JInt 9])]))))
        1700100000000000
       = Inr \<lparr>req_existing_data = JArr ([JArr [JInt 1699913600]] @ [JArr (JInt 1700000000 # [JInt 9])]),
              req_initial_count = length [JArr [JInt 1699913600]] + 1, req_days_to_fetch = 3\<rparr>"
proof -
  have nb: "\<not> blank (ascii ''{not json'')"
    by (simp add: blank_def ascii_def py_isspace_def)
  have nb2: "\<not> blank (ascii ''[[1699913600], [1700000000, 9]]'')"
    by (simp add: blank_def ascii_def py_isspace_def)
  have b: "blank [32, 10, 160]"
    by (simp add: blank_def py_isspace_def)
  have key: "Some ''key'' \<noteq> None \<and> Some ''key'' \<noteq> Some []" by simp
  have t: "fromtimestamp 1700000000 = Inr 1700000000"
    by (simp add: fromtimestamp_def min_timestamp_def max_timestamp_def)
  have d: "days_to_fetch 1700100000000000 1700000000 = Inr 3"
    by (simp add: days_to_fetch_def fromtimestamp_def min_timestamp_def max_timestamp_def)
  from C2_invalid_json_aborts
         [of "ascii ''{not json''" "Some ''key''" 1700100000000000]
       nb key
  have c1: "load_store (Text (ascii ''{not json'') JSONDecodeError) = Inl CorruptStore"
    and c2: "prepare (Some ''key'') (Text (ascii ''{not json'') JSONDecodeError) 1700100000000000
       = Inl CorruptStore"
    by blast+
  from C2_invalid_json_aborts
         [of "[32, 10, 160]" "Some ''key''" 1700100000000000 _ JSONDecodeError]
       b key
  have c3: "prepare (Some ''key'') (Text [32, 10, 160] JSONDecodeError) 1700100000000000
       = Inr \<lparr>req_existing_data = JArr [], req_initial_count = 0, req_days_to_fetch = 365\<rparr>"
    by blast
  from C2_invalid_json_aborts
         [of "ascii ''[[1699913600], [1700000000, 9]]''" "Some ''key''" 1700100000000000 _ _
             1700000000 "[JArr [JInt 1699913600]]" "[JInt 9]"]
       nb2 key t d
  have c4: "prepare (Some ''key'')
        (Text (ascii ''[[1699913600], [1700000000, 9]]'')
           (Parsed (JArr ([JArr [JInt 1699913600]] @ [JArr (JInt 1700000000 # [JInt 9])]))))
        1700100000000000
       = Inr \<lparr>req_existing_data = JArr ([JArr [JInt 1699913600]] @ [JArr (JInt 1700000000 # [JInt 9])]),
              req_initial_count = length [JArr [JInt 1699913600]] + 1, req_days_to_fetch = 3\<rparr>"
    by auto
  from nb key c1 c2 b c3 t c4 show ?thesis by blast
qed

text \<open>
  The claim as stated speaks of every content that is not a sequence of
  (timestamp, price) pairs. The loader checks no shape: it reads only the first
  component of the last element (line 40). The text \<^verbatim>\<open>[7, [1700000000, 9]]\<close> parses to
  a list that is not a sequence of pairs, yet it is loaded with last timestamp
  1700000000 and the request for 3 days is sent.
\<close>

theorem C2_counterexample:
  "\<not> blank (ascii ''[7, [1700000000, 9]]'')
   \<and> \<not> spec_sequence_of_pairs (JArr [JInt 7, JArr [JInt 1700000000, JInt 9]])
   \<and> load_store (Text (ascii ''[7, [1700000000, 9]]'')
                   (Parsed (JArr [JInt 7, JArr [JInt 1700000000, JInt 9]])))
       = Inr (JArr [JInt 7, JArr [JInt 1700000000, JInt 9]], 1700000000)
   \<and> prepare (Some ''key'')
        (Text (ascii ''[7, [1700000000, 9]]'')
           (Parsed (JArr [JInt 7, JArr [JInt 1700000000, JInt 9]])))
        1700100000000000
       = Inr \<lparr>req_existing_data = JArr [JInt 7, JArr [JInt 1700000000, JInt 9]],
              req_initial_count = 2, req_days_to_fetch = 3\<rparr>"
  by (simp add: blank_def ascii_def py_isspace_def spec_sequence_of_pairs_def spec_price_point_def
      prepare_def load_store_def days_to_fetch_def fromtimestamp_def min_timestamp_def
      max_timestamp_def)

section \<open>Fetch planner\<close>

text \<open>
  Claim C3, as amended. The planner returns a number of days whenever the last-known
  timestamp is one the loader accepts. The number is at most 365 for every last-known
  timestamp and every current time. It is at least 1, hence in the range 1 to 365, when
  there is no prior data or the last-known timestamp is at most one day ahead of the
  current time; it is at least 2 when the last-known timestamp is not in the future.
\<close>

theorem C3_days_to_fetch_bounds:
  "(last_timestamp_sec \<le> max_timestamp \<longrightarrow> (\<exists>d. days_to_fetch now_us last_timestamp_sec = Inr d))
   \<and> (\<forall>d. days_to_fetch now_us last_timestamp_sec = Inr d \<longrightarrow>
         d \<le> 365
       \<and> (last_timestamp_sec \<le> 0 \<or> last_timestamp_sec * 1000000 \<le> now_us + 86400000000 \<longrightarrow> 1 \<le> d)
       \<and> (last_timestamp_sec \<le> 0 \<or> last_timestamp_sec * 1000000 \<le> now_us \<longrightarrow> 2 \<le> d))"
proof -
  let ?q = "(now_us - last_timestamp_sec * 1000000) div 86400000000"
  have total: "\<exists>d. days_to_fetch now_us last_timestamp_sec = Inr d" if "last_timestamp_sec \<le> max_timestamp"
    using that by (simp add: days_to_fetch_def fromtimestamp_def min_timestamp_def Let_def)
  have q1: "- 1 \<le> ?q" if "last_timestamp_sec * 1000000 \<le> now_us + 86400000000"
    using that by linarith
  have q0: "0 \<le> ?q" if "last_timestamp_sec * 1000000 \<le> now_us"
    using that by linarith
  have bounds: "d \<le> 365
       \<and> (last_timestamp_sec \<le> 0 \<or> last_timestamp_sec * 1000000 \<le> now_us + 86400000000 \<longrightarrow> 1 \<le> d)
       \<and> (last_timestamp_sec \<le> 0 \<or> last_timestamp_sec * 1000000 \<le> now_us \<longrightarrow> 2 \<le> d)"
    if "days_to_fetch now_us last_timestamp_sec = Inr d" for d
  proof (cases "last_timestamp_sec > 0")
    case False
    with that show ?thesis by (simp add: days_to_fetch_def)
  next
    case True
    with that have d: "d = (if ?q + 2 > 365 then 365 else ?q + 2)"
      by (auto simp: days_to_fetch_def fromtimestamp_def Let_def split: if_splits)
    from d q1 q0 True show ?thesis by (auto split: if_splits)
  qed
  from total bounds show ?thesis by blast
qed

theorem C3_days_to_fetch_bounds_witness:
  "(1700000000 :: int) \<le> max_timestamp
   \<and> (1700000000 :: int) * 1000000 \<le> 1700100000000000
   \<and> days_to_fetch 1700100000000000 1700000000 = Inr 3
   \<and> (1 :: int) \<le> 3 \<and> (3 :: int) \<le> 365"
proof -
  have h: "(1700000000 :: int) \<le> max_timestamp" by (simp add: max_timestamp_def)
  have v: "days_to_fetch 1700100000000000 1700000000 = Inr 3"
    by (simp add: days_to_fetch_def fromtimestamp_def min_timestamp_def max_timestamp_def)
  from C3_days_to_fetch_bounds [of 1700000000 1700100000000000] h v show ?thesis by simp
qed

text \<open>
  There is no lower clamp (lines 63 and 64 bound the number from above only): with a
  last stored timestamp three days ahead of the clock the planner computes \<open>-1\<close> days.
\<close>

theorem C3_counterexample:
  "fromtimestamp 1700259200 = Inr 1700259200
   \<and> days_to_fetch 1700000000000000 1700259200 = Inr (- 1)
   \<and> \<not> (1 :: int) \<le> - 1"
  by (simp add: days_to_fetch_def fromtimestamp_def min_timestamp_def max_timestamp_def)

section \<open>No entry for the current day\<close>

text \<open>
  Claim C4, as amended. For every existing dataset \<open>D\<close>, raw points \<open>R\<close> and date
  \<open>today\<close>, the candidate is \<open>D\<close> followed by appended entries, and no appended entry
  has the UTC date \<open>today\<close>. So the candidate holds an entry dated \<open>today\<close> only if
  \<open>D\<close> already did: when \<open>D\<close> has none, the candidate has none.
\<close>

theorem C4_no_entry_for_today_added:
  assumes "merge_engine today D R = Inr (cand, n)"
  shows "take (length D) cand = D
       \<and> (\<forall>e\<in>set (drop (length D) cand). utc_date (fst e) \<noteq> Inr today)
       \<and> ((\<forall>e\<in>set D. utc_date (fst e) \<noteq> Inr today) \<longrightarrow>
            (\<forall>e\<in>set cand. utc_date (fst e) \<noteq> Inr today))"
proof -
  from assms obtain A where cand: "cand = D @ A" and A: "A = accepted today (day_of ` set D) R"
    by (rule merge_engine_result)
  have new: "utc_date (fst e) \<noteq> Inr today" if "e \<in> set A" for e
    using accepted_props [of e today "day_of ` set D" R] that
    by (auto simp: A utc_date_Inr day_of_def)
  with cand show ?thesis by auto
qed

theorem C4_no_entry_for_today_added_witness:
  "merge_engine 19676 [(1700000000, ''9.5'')] [(1700086400000, ''9.7'')]
     = Inr ([(1700000000, ''9.5'')], 0)
   \<and> utc_date (1700086400000 div 1000) = Inr 19676
   \<and> utc_date (fst (1700000000 :: int, ''9.5'')) \<noteq> Inr 19676"
proof -
  have m: "merge_engine 19676 [(1700000000, ''9.5'')] [(1700086400000, ''9.7'')]
     = Inr ([(1700000000, ''9.5'')], 0)"
    by (simp add: eval_defs)
  have d: "utc_date (1700086400000 div 1000) = Inr 19676"
    by (simp add: eval_defs)
  have h: "\<forall>e\<in>set [(1700000000 :: int, ''9.5'')]. utc_date (fst e) \<noteq> Inr 19676"
    by (simp add: eval_defs)
  have h': "utc_date (fst (1700000000 :: int, ''9.5'')) \<noteq> Inr 19676"
    by (simp add: eval_defs)
  from C4_no_entry_for_today_added [OF m] h have
    "\<forall>e\<in>set [(1700000000 :: int, ''9.5'')]. utc_date (fst e) \<noteq> Inr 19676" by simp
  with m d h' show ?thesis by simp
qed

text \<open>
  The filter of line 107 is applied to the raw points only. An entry of the loaded
  dataset dated today stays in the candidate and is written back with it.
\<close>

theorem C4_counterexample:
  "merge_engine 19675 [(1700000000, ''9.5'')] [(1699913600000, ''9.4'')]
     = Inr ([(1700000000, ''9.5''), (1699913600, ''9.4'')], 1)
   \<and> merge_and_save 19675 [(1700000000, ''9.5'')] [(1699913600000, ''9.4'')]
       = Inr (Written [(1699913600, ''9.4''), (1700000000, ''9.5'')])
   \<and> utc_date 1700000000 = Inr 19675"
  by (simp add: eval_defs)

section \<open>Order of the raw points\<close>

text \<open>
  Claim C5, as amended. For every existing dataset \<open>D\<close>, raw points \<open>R\<close> and
  permutation \<open>R'\<close> of \<open>R\<close>: if the points of \<open>R\<close> that pass both filters (not dated
  today, date not in \<open>D\<close>) have pairwise distinct UTC dates, then merging \<open>D\<close> with
  \<open>R'\<close> gives the same count, the same dataset after the sort and the same outcome of
  the run as merging \<open>D\<close> with \<open>R\<close>.
\<close>

theorem C5_order_insensitive_when_dates_distinct:
  assumes "mset R' = mset R"
    and "distinct (map (\<lambda>r. utc_date (fst r div 1000))
           (filter (\<lambda>r. utc_date (fst r div 1000) \<noteq> Inr today
                       \<and> utc_date (fst r div 1000) \<notin> (\<lambda>e. utc_date (fst e)) ` set D) R))"
  shows "merge_and_save today D R' = merge_and_save today D R
       \<and> (\<forall>cand n. merge_engine today D R = Inr (cand, n) \<longrightarrow>
            (\<exists>cand'. merge_engine today D R' = Inr (cand', n)
               \<and> mset cand' = mset cand
               \<and> sort_key fst cand' = sort_key fst cand))"
proof (cases "(\<forall>e\<in>set D. in_range (fst e)) \<and> (\<forall>r\<in>set R. in_range (fst r div 1000))")
  case False
  from assms(1) have sets: "set R' = set R" by (rule mset_eq_setD)
  from False have "merge_engine today D R = Inl TimestampOutOfRange"
    using merge_engine_Inl [of today D R TimestampOutOfRange] by blast
  moreover from False sets have "merge_engine today D R' = Inl TimestampOutOfRange"
    using merge_engine_Inl [of today D R' TimestampOutOfRange] by simp
  ultimately show ?thesis by (simp add: merge_and_save_def)
next
  case True
  then have Dok: "\<forall>e\<in>set D. in_range (fst e)" and Rok: "\<forall>r\<in>set R. in_range (fst r div 1000)"
    by simp_all
  from assms(1) have sets: "set R' = set R" by (rule mset_eq_setD)
  with Rok have R'ok: "\<forall>r\<in>set R'. in_range (fst r div 1000)" by simp
  let ?S = "day_of ` set D"
  let ?g = "\<lambda>r. day_of (raw_sec r)"
  let ?keep = "\<lambda>r. ?g r \<noteq> today \<and> ?g r \<notin> ?S"
  let ?P = "\<lambda>r. utc_date (fst r div 1000) \<noteq> Inr today
                \<and> utc_date (fst r div 1000) \<notin> (\<lambda>e. utc_date (fst e)) ` set D"
  have img: "(\<lambda>e. utc_date (fst e)) ` set D = Inr ` ?S"
  proof -
    have "(\<lambda>e. utc_date (fst e)) ` set D = (\<lambda>e. Inr (day_of e)) ` set D"
      using Dok by (intro image_cong refl) (simp add: utc_date_entry)
    then show ?thesis by (simp add: image_image)
  qed
  have P_keep: "?P r = ?keep r" if "r \<in> set R" for r
  proof -
    from that Rok have "utc_date (fst r div 1000) = Inr (?g r)" by (simp add: utc_date_raw)
    then show ?thesis by (simp add: img inj_image_mem_iff)
  qed
  have "filter ?P R = filter ?keep R"
    by (rule filter_cong [OF refl]) (rule P_keep)
  with assms(2) have d1: "distinct (map (\<lambda>r. utc_date (fst r div 1000)) (filter ?keep R))"
    by simp
  have eqm: "map (\<lambda>r. utc_date (fst r div 1000)) (filter ?keep R) = map Inr (map ?g (filter ?keep R))"
    using Rok by (simp add: utc_date_raw)
  from d1 have "distinct (map (Inr :: int \<Rightarrow> error + int) (map ?g (filter ?keep R)))"
    unfolding eqm .
  then have dR: "distinct (map ?g (filter ?keep R))"
    by (rule distinct_map [THEN iffD1, THEN conjunct1])
  have "mset (map ?g (filter ?keep R')) = mset (map ?g (filter ?keep R))"
    using assms(1) by simp
  from mset_eq_imp_distinct_iff [OF this] dR
  have dR': "distinct (map ?g (filter ?keep R'))" by simp
  let ?A = "accepted today ?S R" and ?A' = "accepted today ?S R'"
  have A: "?A = map raw_sec (filter ?keep R)" by (rule accepted_filter [OF dR])
  have A': "?A' = map raw_sec (filter ?keep R')" by (rule accepted_filter [OF dR'])
  have mA: "mset ?A' = mset ?A" using assms(1) by (simp add: A A')
  then have lA: "length ?A' = length ?A" by (rule mset_eq_length)
  have "distinct (map day_of ?A)" by (rule accepted_distinct)
  then have "distinct (map fst ?A)" by (rule distinct_map_fst_from_day)
  with mA have srt: "sort_key fst (D @ ?A') = sort_key fst (D @ ?A)" by (rule sort_append_perm)
  have m: "merge_engine today D R = Inr (D @ ?A, length ?A)"
    using Dok Rok merge_engine_Inr [of today D R] by blast
  have m': "merge_engine today D R' = Inr (D @ ?A', length ?A')"
    using Dok R'ok merge_engine_Inr [of today D R'] by blast
  have save: "merge_and_save today D R' = merge_and_save today D R"
    by (simp add: merge_and_save_def m m' save_step_def lA srt)
  have "merge_engine today D R' = Inr (D @ ?A', length ?A) \<and> mset (D @ ?A') = mset (D @ ?A)
         \<and> sort_key fst (D @ ?A') = sort_key fst (D @ ?A)"
    using m' lA mA srt by simp
  with m save show ?thesis by auto
qed

theorem C5_order_insensitive_when_dates_distinct_witness:
  "mset [(1700086400000 :: int, ''9.7''), (1700000000000, ''9.5'')]
     = mset [(1700000000000, ''9.5''), (1700086400000, ''9.7'')]
   \<and> merge_and_save 30000 [] [(1700000000000, ''9.5''), (1700086400000, ''9.7'')]
       = Inr (Written [(1700000000, ''9.5''), (1700086400, ''9.7'')])
   \<and> merge_and_save 30000 [] [(1700086400000, ''9.7''), (1700000000000, ''9.5'')]
       = Inr (Written [(1700000000, ''9.5''), (1700086400, ''9.7'')])"
proof -
  let ?R = "[(1700000000000 :: int, ''9.5''), (1700086400000, ''9.7'')]"
  let ?R' = "[(1700086400000 :: int, ''9.7''), (1700000000000, ''9.5'')]"
  have p: "mset ?R' = mset ?R" by simp
  have d: "distinct (map (\<lambda>r. utc_date (fst r div 1000))
           (filter (\<lambda>r. utc_date (fst r div 1000) \<noteq> Inr 30000
                       \<and> utc_date (fst r div 1000) \<notin> (\<lambda>e. utc_date (fst e)) ` set ([] :: string dataset)) ?R))"
    by (simp add: eval_defs)
  have v: "merge_and_save 30000 [] ?R = Inr (Written [(1700000000, ''9.5''), (1700086400, ''9.7'')])"
    by (simp add: eval_defs)
  from C5_order_insensitive_when_dates_distinct [OF p d] v p show ?thesis by simp
qed

text \<open>
  Without the condition the order matters: of two raw points of one new date the first
  in input order is kept (line 116 marks the date as seen), so the two orders store
  different entries.
\<close>

theorem C5_counterexample:
  "mset [(1700003600000 :: int, ''9.6''), (1700000000000, ''9.5'')]
     = mset [(1700000000000, ''9.5''), (1700003600000, ''9.6'')]
   \<and> merge_and_save 30000 [] [(1700000000000, ''9.5''), (1700003600000, ''9.6'')]
       = Inr (Written [(1700000000, ''9.5'')])
   \<and> merge_and_save 30000 [] [(1700003600000, ''9.6''), (1700000000000, ''9.5'')]
       = Inr (Written [(1700003600, ''9.6'')])"
  by (simp add: merge_and_save_def save_step_def merge_engine_def utc_date_def fromtimestamp_def
      min_timestamp_def max_timestamp_def)

section \<open>No overwrite\<close>

text \<open>
  Claim C6. When the UTC date of a raw point is the date of an entry of \<open>D\<close>, the
  point is skipped wherever it stands in the response: the merge gives the same
  candidate and the same count as without the point, and in the candidate the entries
  of \<open>D\<close> stand unchanged at their positions.
\<close>

theorem C6_stored_date_never_overwritten:
  assumes "(ts, v) \<in> set D" and "utc_date (ms div 1000) = utc_date ts"
  shows "merge_engine today D (R1 @ (ms, p) # R2) = merge_engine today D (R1 @ R2)
       \<and> (\<forall>cand n. merge_engine today D (R1 @ (ms, p) # R2) = Inr (cand, n) \<longrightarrow>
            take (length D) cand = D \<and> (ts, v) \<in> set cand)"
proof -
  let ?ok = "\<lambda>R. (\<forall>e\<in>set D. in_range (fst e)) \<and> (\<forall>r\<in>set R. in_range (fst r div 1000))"
  have same: "merge_engine today D (R1 @ (ms, p) # R2) = merge_engine today D (R1 @ R2)"
  proof (cases "?ok (R1 @ R2)")
    case True
    with assms(1) have "in_range ts" by auto
    with assms(2) have ms: "in_range (ms div 1000)" and d: "ms div 1000 div 86400 = ts div 86400"
      using utc_date_Inr [of "ms div 1000" "ts div 86400"] by (simp_all add: utc_date_in_range)
    from d assms(1) have seen: "day_of (raw_sec (ms, p)) \<in> day_of ` set D"
      by (force simp: day_of_def raw_sec_def)
    from True ms have ok': "?ok (R1 @ (ms, p) # R2)" by auto
    have "merge_engine today D (R1 @ (ms, p) # R2)
        = Inr (D @ accepted today (day_of ` set D) (R1 @ (ms, p) # R2),
               length (accepted today (day_of ` set D) (R1 @ (ms, p) # R2)))"
      using ok' merge_engine_Inr [of today D "R1 @ (ms, p) # R2"] by blast
    moreover have "merge_engine today D (R1 @ R2)
        = Inr (D @ accepted today (day_of ` set D) (R1 @ R2),
               length (accepted today (day_of ` set D) (R1 @ R2)))"
      using True merge_engine_Inr [of today D "R1 @ R2"] by blast
    ultimately show ?thesis by (simp add: accepted_skip [OF seen])
  next
    case False
    then have bad: "\<not> ?ok (R1 @ (ms, p) # R2)" by auto
    from False have "merge_engine today D (R1 @ R2) = Inl TimestampOutOfRange"
      using merge_engine_Inl [of today D "R1 @ R2" TimestampOutOfRange] by blast
    moreover from bad have "merge_engine today D (R1 @ (ms, p) # R2) = Inl TimestampOutOfRange"
      using merge_engine_Inl [of today D "R1 @ (ms, p) # R2" TimestampOutOfRange] by blast
    ultimately show ?thesis by simp
  qed
  have keep: "take (length D) cand = D \<and> (ts, v) \<in> set cand"
    if "merge_engine today D (R1 @ (ms, p) # R2) = Inr (cand, n)" for cand n
  proof -
    from that obtain A where "cand = D @ A" by (rule merge_engine_result)
    with assms(1) show ?thesis by simp
  qed
  from same keep show ?thesis by blast
qed

theorem C6_stored_date_never_overwritten_witness:
  "(1700000000, ''9.5'') \<in> set [(1700000000 :: int, ''9.5'')]
   \<and> utc_date (1700003600000 div 1000) = utc_date 1700000000
   \<and> merge_engine 30000 [(1700000000, ''9.5'')] ([] @ (1700003600000, ''9.9'') # [])
       = Inr ([(1700000000, ''9.5'')], 0)
   \<and> merge_and_save 30000 [(1700000000, ''9.5'')] [(1700003600000, ''9.9'')] = Inr NoChanges"
proof -
  have h1: "(1700000000, ''9.5'') \<in> set [(1700000000 :: int, ''9.5'')]" by simp
  have h2: "utc_date (1700003600000 div 1000) = utc_date 1700000000"
    by (simp add: utc_date_def fromtimestamp_def min_timestamp_def max_timestamp_def)
  have e: "merge_engine 30000 [(1700000000, ''9.5'')] ([] @ []) = Inr ([(1700000000, ''9.5'')], 0)"
    by (simp add: merge_engine_def utc_date_def fromtimestamp_def min_timestamp_def max_timestamp_def)
  from C6_stored_date_never_overwritten [OF h1 h2, of 30000 "[]" "''9.9''" "[]"] e
  have m: "merge_engine 30000 [(1700000000, ''9.5'')] ([] @ (1700003600000, ''9.9'') # [])
       = Inr ([(1700000000, ''9.5'')], 0)" by simp
  then have "merge_and_save 30000 [(1700000000, ''9.5'')] [(1700003600000, ''9.9'')] = Inr NoChanges"
    by (simp add: merge_and_save_def save_step_def)
  with h1 h2 m show ?thesis by blast
qed

section \<open>One entry per date\<close>

text \<open>
  Claim C7, as amended. The merge never adds a second entry for a date: the appended
  entries have pairwise distinct UTC dates, and none has the date of an entry of the
  loaded dataset \<open>D\<close>. Hence, when \<open>D\<close> has at most one entry per UTC date, so have
  the candidate, the sorted candidate and the store after the run.
\<close>

theorem C7_merge_adds_one_entry_per_date:
  assumes "merge_engine today D R = Inr (cand, n)"
  shows "distinct (map (\<lambda>e. utc_date (fst e)) (drop (length D) cand))
       \<and> (\<forall>e\<in>set (drop (length D) cand). \<forall>d\<in>set D. utc_date (fst e) \<noteq> utc_date (fst d))
       \<and> (distinct (map (\<lambda>e. utc_date (fst e)) D) \<longrightarrow>
            distinct (map (\<lambda>e. utc_date (fst e)) cand)
          \<and> distinct (map (\<lambda>e. utc_date (fst e)) (sort_key fst cand))
          \<and> distinct (map (\<lambda>e. utc_date (fst e))
               (stored_after D (save_step (length D) (cand, n)))))"
proof -
  let ?S = "day_of ` set D"
  let ?date = "\<lambda>e :: 'a price_point. utc_date (fst e)"
  from assms(1) obtain A where cand: "cand = D @ A" and A: "A = accepted today ?S R"
    and Dok: "\<forall>e\<in>set D. in_range (fst e)" and Aok: "\<forall>e\<in>set A. in_range (fst e)"
    by (rule merge_engine_result)
  have dA: "distinct (map day_of A)" unfolding A by (rule accepted_distinct)
  with Aok have new: "distinct (map ?date (drop (length D) cand))"
    by (simp add: cand distinct_dates_iff)
  have fresh: "?date e \<noteq> ?date d" if "e \<in> set A" "d \<in> set D" for e d
  proof -
    from that have "day_of e \<noteq> day_of d" unfolding A by (rule accepted_fresh)
    moreover from that Aok Dok have "?date e = Inr (day_of e)" "?date d = Inr (day_of d)"
      by (simp_all add: utc_date_entry)
    ultimately show ?thesis by simp
  qed
  then have fr: "\<forall>e\<in>set (drop (length D) cand). \<forall>d\<in>set D. ?date e \<noteq> ?date d"
    by (simp add: cand)
  have pres: "distinct (map ?date cand) \<and> distinct (map ?date (sort_key fst cand))
      \<and> distinct (map ?date (stored_after D (save_step (length D) (cand, n))))"
    if old: "distinct (map ?date D)"
  proof -
    from old Dok have dD: "distinct (map day_of D)" by (simp add: distinct_dates_iff)
    have disj: "day_of ` set D \<inter> day_of ` set A = {}"
      unfolding A by (rule accepted_disjoint)
    from dD dA disj have "distinct (map day_of cand)" by (simp add: cand)
    moreover have ok: "\<forall>e\<in>set cand. in_range (fst e)" using Dok Aok by (auto simp: cand)
    ultimately have c: "distinct (map ?date cand)"
      by (simp add: distinct_dates_iff)
    have "mset (map ?date (sort_key fst cand)) = mset (map ?date cand)"
      by simp
    from mset_eq_imp_distinct_iff [OF this] c
    have s: "distinct (map ?date (sort_key fst cand))" by simp
    have "stored_after D (save_step (length D) (cand, n)) = sort_key fst cand
        \<or> stored_after D (save_step (length D) (cand, n)) = D"
      by (simp add: stored_after_def save_step_def)
    with s old have "distinct (map ?date (stored_after D (save_step (length D) (cand, n))))"
      by auto
    with c s show ?thesis by blast
  qed
  from new fr pres show ?thesis by blast
qed

theorem C7_merge_adds_one_entry_per_date_witness:
  "merge_engine 30000 [(1700000000, ''9.5'')] [(1700086400000, ''9.7''), (1700090000000, ''9.8'')]
     = Inr ([(1700000000, ''9.5''), (1700086400, ''9.7'')], 1)
   \<and> distinct (map (\<lambda>e. utc_date (fst e)) [(1700000000 :: int, ''9.5'')])
   \<and> distinct (map (\<lambda>e. utc_date (fst e)) [(1700000000 :: int, ''9.5''), (1700086400, ''9.7'')])
   \<and> utc_date (1700086400000 div 1000) = utc_date (1700090000000 div 1000)"
proof -
  have m: "merge_engine 30000 [(1700000000, ''9.5'')] [(1700086400000, ''9.7''), (1700090000000, ''9.8'')]
     = Inr ([(1700000000, ''9.5''), (1700086400, ''9.7'')], 1)"
    by (simp add: eval_defs)
  have h: "distinct (map (\<lambda>e. utc_date (fst e)) [(1700000000 :: int, ''9.5'')])"
    by simp
  have d: "utc_date (1700086400000 div 1000) = utc_date (1700090000000 div 1000)"
    by (simp add: eval_defs)
  from C7_merge_adds_one_entry_per_date [OF m] h m d show ?thesis by simp
qed

text \<open>
  The loaded dataset is not deduplicated: when the file holds two entries of one date,
  the file written by the run holds them both.
\<close>

theorem C7_counterexample:
  "merge_and_save 30000 [(1700000000, ''9.5''), (1700003600, ''9.6'')] [(1700086400000, ''9.7'')]
     = Inr (Written [(1700000000, ''9.5''), (1700003600, ''9.6''), (1700086400, ''9.7'')])
   \<and> utc_date 1700000000 = utc_date 1700003600"
  by (simp add: eval_defs)

section \<open>The candidate extends the loaded dataset\<close>

text \<open>
  Claim C8. For every loaded dataset \<open>D\<close> and raw points \<open>R\<close>, the candidate starts
  with \<open>D\<close> itself, and every entry of \<open>D\<close> occurs, as often as in \<open>D\<close>, in the
  candidate, in the sorted candidate and in the store after the run.
\<close>

theorem C8_candidate_keeps_every_entry:
  assumes "merge_engine today D R = Inr (cand, n)"
  shows "take (length D) cand = D
       \<and> mset D \<subseteq># mset cand
       \<and> mset D \<subseteq># mset (sort_key fst cand)
       \<and> mset D \<subseteq># mset (stored_after D (save_step (length D) (cand, n)))"
proof -
  from assms obtain A where cand: "cand = D @ A" by (rule merge_engine_result)
  then show ?thesis by (simp add: stored_after_def save_step_def)
qed

theorem C8_candidate_keeps_every_entry_witness:
  "merge_engine 30000 [(1700086400, ''9.7'')] [(1700000000000, ''9.5'')]
     = Inr ([(1700086400, ''9.7''), (1700000000, ''9.5'')], 1)
   \<and> take (length [(1700086400 :: int, ''9.7'')]) [(1700086400 :: int, ''9.7''), (1700000000, ''9.5'')]
       = [(1700086400, ''9.7'')]
   \<and> mset [(1700086400 :: int, ''9.7'')]
       \<subseteq># mset (sort_key fst [(1700086400 :: int, ''9.7''), (1700000000, ''9.5'')])"
proof -
  have m: "merge_engine 30000 [(1700086400, ''9.7'')] [(1700000000000, ''9.5'')]
     = Inr ([(1700086400, ''9.7''), (1700000000, ''9.5'')], 1)"
    by (simp add: eval_defs)
  from C8_candidate_keeps_every_entry [OF m] m show ?thesis by simp
qed

section \<open>Merging twice\<close>

text \<open>
  Claim C9. Let \<open>S\<close> be the store after a run that merged \<open>D\<close> with \<open>R\<close>. Merging
  \<open>S\<close> with the same \<open>R\<close> on the same day yields \<open>S\<close> itself with zero new entries, and
  the run writes nothing. The same holds for the unsorted candidate.
\<close>

theorem C9_second_merge_adds_nothing:
  assumes "merge_engine today D R = Inr (cand, n)"
    and "S = stored_after D (save_step (length D) (cand, n))"
  shows "merge_engine today S R = Inr (S, 0)
       \<and> merge_and_save today S R = Inr NoChanges
       \<and> merge_engine today cand R = Inr (cand, 0)"
proof -
  from assms(1) obtain A where cand: "cand = D @ A" and n: "n = length A"
    and A: "A = accepted today (day_of ` set D) R"
    and Dok: "\<forall>e\<in>set D. in_range (fst e)" and Rok: "\<forall>r\<in>set R. in_range (fst r div 1000)"
    and Aok: "\<forall>e\<in>set A. in_range (fst e)"
    by (rule merge_engine_result)
  have candok: "\<forall>e\<in>set cand. in_range (fst e)" using Dok Aok by (auto simp: cand)
  have c: "merge_engine today cand R = Inr (cand, 0)"
    by (rule remerge_adds_nothing [OF Dok Rok candok]) (auto simp: cand A)
  have S_set: "set S = set cand"
  proof (cases "n > 0")
    case True
    then show ?thesis by (simp add: assms(2) stored_after_def save_step_def cand)
  next
    case False
    with n have "A = []" by simp
    with False show ?thesis by (simp add: assms(2) stored_after_def save_step_def cand)
  qed
  have Sok: "\<forall>e\<in>set S. in_range (fst e)" using candok by (simp add: S_set)
  have s: "merge_engine today S R = Inr (S, 0)"
    by (rule remerge_adds_nothing [OF Dok Rok Sok]) (auto simp: S_set cand A)
  then have "merge_and_save today S R = Inr NoChanges"
    by (simp add: merge_and_save_def save_step_def)
  with s c show ?thesis by blast
qed

theorem C9_second_merge_adds_nothing_witness:
  "merge_engine 30000 [(1700086400, ''9.7'')] [(1700000000000, ''9.5'')]
     = Inr ([(1700086400, ''9.7''), (1700000000, ''9.5'')], 1)
   \<and> stored_after [(1700086400, ''9.7'')]
        (save_step (length [(1700086400 :: int, ''9.7'')]) ([(1700086400, ''9.7''), (1700000000, ''9.5'')], 1))
       = [(1700000000, ''9.5''), (1700086400, ''9.7'')]
   \<and> merge_engine 30000 [(1700000000, ''9.5''), (1700086400, ''9.7'')] [(1700000000000, ''9.5'')]
       = Inr ([(1700000000, ''9.5''), (1700086400, ''9.7'')], 0)
   \<and> merge_and_save 30000 [(1700000000, ''9.5''), (1700086400, ''9.7'')] [(1700000000000, ''9.5'')]
       = Inr NoChanges"
proof -
  have m: "merge_engine 30000 [(1700086400, ''9.7'')] [(1700000000000, ''9.5'')]
     = Inr ([(1700086400, ''9.7''), (1700000000, ''9.5'')], 1)"
    by (simp add: eval_defs)
  have s: "[(1700000000, ''9.5''), (1700086400, ''9.7'')]
     = stored_after [(1700086400, ''9.7'')]
        (save_step (length [(1700086400 :: int, ''9.7'')]) ([(1700086400, ''9.7''), (1700000000, ''9.5'')], 1))"
    by (simp add: eval_defs)
  from C9_second_merge_adds_nothing [OF m s] m s show ?thesis by simp
qed

section \<open>Several raw points of one new date\<close>

text \<open>
  Claim C10. Let a raw point have a date \<open>d\<close> that is not today, is not stored in \<open>D\<close>
  and is the date of no earlier raw point. Then it is appended right after what the
  earlier points gave and is counted, and it is the only entry of the candidate with date
  \<open>d\<close>: every later point of date \<open>d\<close> is skipped.
\<close>

theorem C10_first_point_of_a_date_wins:
  assumes "merge_engine today D (R1 @ (ms, p) # R2) = Inr (cand, n)"
    and "utc_date (ms div 1000) = Inr d"
    and "d \<noteq> today"
    and "\<forall>e\<in>set D. utc_date (fst e) \<noteq> Inr d"
    and "\<forall>r\<in>set R1. utc_date (fst r div 1000) \<noteq> Inr d"
  shows "filter (\<lambda>e. utc_date (fst e) = Inr d) cand = [(ms div 1000, p)]
       \<and> length cand = length D + n
       \<and> (\<exists>cand1 n1 rest. merge_engine today D R1 = Inr (cand1, n1)
            \<and> cand = cand1 @ (ms div 1000, p) # rest \<and> n = n1 + 1 + length rest)"
proof -
  let ?S = "day_of ` set D"
  let ?A1 = "accepted today ?S R1"
  let ?S1 = "?S \<union> day_of ` set ?A1"
  let ?A2 = "accepted today (insert d ?S1) R2"
  let ?x = "(ms div 1000, p)"
  from assms(1) obtain A where cand: "cand = D @ A" and n: "n = length A"
    and A: "A = accepted today ?S (R1 @ (ms, p) # R2)"
    and Dok: "\<forall>e\<in>set D. in_range (fst e)"
    and Rok: "\<forall>r\<in>set (R1 @ (ms, p) # R2). in_range (fst r div 1000)"
    and Aok: "\<forall>e\<in>set A. in_range (fst e)"
    by (rule merge_engine_result)
  from assms(2) have dx: "day_of (raw_sec (ms, p)) = d"
    by (auto simp: utc_date_Inr day_of_def raw_sec_def)
  have dD: "day_of e \<noteq> d" if "e \<in> set D" for e
    using that assms(4) Dok utc_date_entry [of e] by auto
  have dR1: "day_of (raw_sec r) \<noteq> d" if "r \<in> set R1" for r
    using that assms(5) Rok utc_date_raw [of r] by auto
  have dA1: "day_of e \<noteq> d" if "e \<in> set ?A1" for e
    using accepted_props [OF that] dR1 by auto
  have dA2: "day_of e \<noteq> d" if "e \<in> set ?A2" for e
    using accepted_props [OF that] by auto
  have fresh: "d \<notin> ?S1" using dD dA1 by auto
  have A_eq: "A = ?A1 @ ?x # ?A2"
    using fresh assms(3) dx by (simp add: A accepted_append raw_sec_def)
  have date_iff: "utc_date (fst e) = Inr d \<longleftrightarrow> day_of e = d" if "e \<in> set cand" for e
    using that Dok Aok utc_date_entry [of e] by (auto simp: cand)
  have "filter (\<lambda>e. utc_date (fst e) = Inr d) cand = filter (\<lambda>e. day_of e = d) cand"
    by (rule filter_cong [OF refl]) (rule date_iff)
  also have "\<dots> = [?x]"
    using dD dA1 dA2 dx by (simp add: cand A_eq raw_sec_def)
  finally have one: "filter (\<lambda>e. utc_date (fst e) = Inr d) cand = [?x]" .
  have m1: "merge_engine today D R1 = Inr (D @ ?A1, length ?A1)"
    using Dok Rok merge_engine_Inr [of today D R1] by auto
  have "cand = (D @ ?A1) @ ?x # ?A2 \<and> n = length ?A1 + 1 + length ?A2"
    by (simp add: cand n A_eq)
  with m1 have ex: "\<exists>cand1 n1 rest. merge_engine today D R1 = Inr (cand1, n1)
            \<and> cand = cand1 @ ?x # rest \<and> n = n1 + 1 + length rest"
    by blast
  from one ex show ?thesis by (simp add: cand n)
qed

theorem C10_first_point_of_a_date_wins_witness:
  "merge_engine 30000 [] ([] @ (1700000000000, ''9.5'') # [(1700003600000, ''9.9'')])
     = Inr ([(1700000000, ''9.5'')], 1)
   \<and> utc_date (1700000000000 div 1000) = Inr 19675
   \<and> utc_date (1700003600000 div 1000) = Inr 19675
   \<and> (19675 :: int) \<noteq> 30000
   \<and> filter (\<lambda>e. utc_date (fst e) = Inr 19675) [(1700000000, ''9.5'')] = [(1700000000000 div 1000, ''9.5'')]"
proof -
  have m: "merge_engine 30000 [] ([] @ (1700000000000, ''9.5'') # [(1700003600000, ''9.9'')])
     = Inr ([(1700000000, ''9.5'')], 1)"
    by (simp add: eval_defs)
  have d: "utc_date (1700000000000 div 1000) = Inr 19675" by (simp add: eval_defs)
  have d2: "utc_date (1700003600000 div 1000) = Inr 19675" by (simp add: eval_defs)
  have t: "(19675 :: int) \<noteq> 30000" by simp
  have h1: "\<forall>e\<in>set ([] :: string dataset). utc_date (fst e) \<noteq> Inr 19675" by simp
  have h2: "\<forall>r\<in>set ([] :: string raw_point list). utc_date (fst r div 1000) \<noteq> Inr 19675" by simp
  from C10_first_point_of_a_date_wins [OF m d t h1 h2] m d d2 t show ?thesis by simp
qed

end
